theory Spec2Isabelle
  imports Main "HOL-Library.Word"
begin

section \<open>Data model of \<open>squash/stream.c\<close>\<close>

text \<open>
  The lengths \<open>avail_in\<close> and \<open>avail_out\<close> are \<open>size_t\<close> in the source
  (\<open>const size_t avail_in = stream->avail_in\<close>), and the totals \<open>total_in\<close> and
  \<open>total_out\<close> are taken to be \<open>size_t\<close> as well (the struct is declared in
  \<open>squash.h\<close>). They are modelled as 64-bit words, so that \<open>+\<close> and \<open>-\<close> wrap around
  as unsigned C arithmetic does on an LP64 target.
\<close>

type_synonym size_t = "64 word"

text \<open>
  Pointers. \<open>NULL\<close> is the null pointer, \<open>Addr a\<close> a buffer position owned by the
  caller, and \<open>Output_sbb\<close> the address \<open>&output_sbb\<close> of the single-byte buffer that is
  local to \<open>squash_stream_process_internal\<close>.
\<close>

datatype pointer = NULL | Addr nat | Output_sbb

text \<open>
  Modelled from the spec: the enum \<open>SquashStatus\<close> is declared in \<open>squash.h\<close>, which is
  not part of the sources at hand. The six codes the engine names, and every other
  (codec-specific) code, which the engine treats opaquely.
\<close>

datatype SquashStatus =
    SQUASH_OK
  | SQUASH_PROCESSING
  | SQUASH_END_OF_STREAM
  | SQUASH_BUFFER_FULL
  | SQUASH_STATE
  | SQUASH_INVALID_OPERATION
  | SQUASH_OTHER int

text \<open>
  Modelled from the spec: the enum \<open>SquashStreamState\<close> is declared in \<open>squash.h\<close> too.
  Its constants are compared with \<open>>\<close> in the source; their order is the order of
  the \<open>switch\<close> in \<open>squash_stream_process_internal\<close> and of the spec
  (Idle < Running < Flushing < Finishing < Finished).
\<close>

datatype SquashStreamState =
    SQUASH_STREAM_STATE_IDLE
  | SQUASH_STREAM_STATE_RUNNING
  | SQUASH_STREAM_STATE_FLUSHING
  | SQUASH_STREAM_STATE_FINISHING
  | SQUASH_STREAM_STATE_FINISHED

fun state_value :: "SquashStreamState \<Rightarrow> nat" where
  "state_value SQUASH_STREAM_STATE_IDLE = 0"
| "state_value SQUASH_STREAM_STATE_RUNNING = 1"
| "state_value SQUASH_STREAM_STATE_FLUSHING = 2"
| "state_value SQUASH_STREAM_STATE_FINISHING = 3"
| "state_value SQUASH_STREAM_STATE_FINISHED = 4"

datatype SquashStreamType = SQUASH_STREAM_COMPRESS | SQUASH_STREAM_DECOMPRESS

text \<open>
  \<open>struct _SquashStream\<close>, field by field as \<open>squash_stream_init\<close> assigns them. A plugin
  embeds the struct at the head of its own stream object (the source casts a
  \<open>SquashStream*\<close> to \<open>SquashBufferStream*\<close>); \<open>plugin_data\<close> stands for the rest of that
  object, which only the plugin reads and writes. The \<open>codec\<close> field is not a field of
  the record: the function table that \<open>squash_codec_get_funcs (stream->codec)\<close> returns
  is passed to the engine beside the stream. \<open>options\<close> holds the handle of the shared
  options object, if any.
\<close>

record 'p SquashStream =
  plugin_data :: 'p
  priv :: pointer
  next_in :: pointer
  avail_in :: size_t
  total_in :: size_t
  next_out :: pointer
  avail_out :: size_t
  total_out :: size_t
  options :: "nat option"
  stream_type :: SquashStreamType
  state :: SquashStreamState
  user_data :: pointer
  destroy_user_data :: pointer

text \<open>
  A stream callback of a plugin, \<open>SquashStatus (*) (SquashStream*)\<close>: it returns a
  status and may have written any field of the stream it was handed.
\<close>

type_synonym 'p stream_fn = "'p SquashStream \<Rightarrow> SquashStatus \<times> 'p SquashStream"

text \<open>
  \<open>SquashCodecFuncs\<close>, the three callbacks the engine reads; \<open>None\<close> is a \<open>NULL\<close>
  function pointer.
\<close>

record 'p SquashCodecFuncs =
  process_stream :: "'p stream_fn option"
  flush_stream :: "'p stream_fn option"
  finish_stream :: "'p stream_fn option"

text \<open>
  The two entry points of the buffering adapter, \<open>squash_buffer_stream_process\<close> and
  \<open>squash_buffer_stream_finish\<close>. They are defined in another file of the library, so
  the engine takes them as parameters.
\<close>

record 'p SquashBufferStreamFuncs =
  squash_buffer_stream_process :: "'p stream_fn"
  squash_buffer_stream_finish :: "'p stream_fn"

text \<open>
  What a call did beyond its return value: the entry points it invoked, in order, each
  with the status that invocation returned.
\<close>

datatype entry_point =
    Process_stream
  | Flush_stream
  | Finish_stream
  | Buffer_stream_process
  | Buffer_stream_finish

type_synonym trace = "(entry_point \<times> SquashStatus) list"

text \<open>
  The local \<open>SquashStatus res\<close> is declared without an initialiser. It is modelled as
  \<open>None\<close> until the first assignment, and a read of it while it is \<open>None\<close> is the
  fault \<open>Unassigned_res\<close> (the read of an indeterminate value in C).
\<close>

datatype fault = Unassigned_res

type_synonym 'p outcome = "fault + (SquashStatus \<times> 'p SquashStream \<times> trace)"

section \<open>Stream construction\<close>

text \<open>
  \<open>squash_stream_init\<close> (lines 158-189): every field of the stream is assigned; the
  plugin's part of the object is left as it was.
\<close>

definition squash_stream_init ::
  "'p SquashStream \<Rightarrow> SquashStreamType \<Rightarrow> nat option \<Rightarrow> 'p SquashStream" where
  "squash_stream_init s stype opts =
     s\<lparr> priv := NULL,
        next_in := NULL, avail_in := 0, total_in := 0,
        next_out := NULL, avail_out := 0, total_out := 0,
        options := opts, stream_type := stype,
        state := SQUASH_STREAM_STATE_IDLE,
        user_data := NULL, destroy_user_data := NULL \<rparr>"

text \<open>
  \<open>squash_stream_newa\<close> (lines 277-283): the body is \<open>return NULL;\<close>. The codec name is a
  string, the two arrays are lists of strings; \<open>None\<close> is the \<open>NULL\<close> result.
\<close>

definition squash_stream_newa ::
  "string \<Rightarrow> SquashStreamType \<Rightarrow> string list \<Rightarrow> string list \<Rightarrow> 'p SquashStream option" where
  "squash_stream_newa codec stype keys vals = None"

section \<open>The operation engine\<close>

text \<open>
  A call through a function pointer: the callback runs on the stream, and the call is
  added to the trace with the status it returned. \<open>assigned\<close> is the assignment of
  that status to \<open>res\<close>.
\<close>

definition invoke ::
  "entry_point \<Rightarrow> 'p stream_fn \<Rightarrow> 'p SquashStream \<Rightarrow> trace
     \<Rightarrow> SquashStatus \<times> 'p SquashStream \<times> trace" where
  "invoke e f s tr = (case f s of (r, s') \<Rightarrow> (r, s', tr @ [(e, r)]))"

definition assigned ::
  "SquashStatus \<times> 'p SquashStream \<times> trace \<Rightarrow> SquashStatus option \<times> 'p SquashStream \<times> trace" where
  "assigned x = (case x of (r, s, tr) \<Rightarrow> (Some r, s, tr))"

text \<open>
  Lines 406-445, the dispatch on \<open>current_operation\<close> at the head of the loop body. At
  the flush level with \<open>current_operation \<noteq> operation\<close> no branch assigns \<open>res\<close>: it keeps
  the value it had.
\<close>

definition squash_stream_process_internal_level ::
  "'p SquashCodecFuncs \<Rightarrow> 'p SquashBufferStreamFuncs \<Rightarrow> nat \<Rightarrow> nat \<Rightarrow> SquashStatus option
     \<Rightarrow> 'p SquashStream \<Rightarrow> trace \<Rightarrow> SquashStatus option \<times> 'p SquashStream \<times> trace" where
  "squash_stream_process_internal_level funcs buf operation current_operation res s tr =
     (if current_operation = 0 then
        (if avail_in s = 0 \<and> state s = SQUASH_STREAM_STATE_IDLE then (Some SQUASH_OK, s, tr)
         else (case process_stream funcs of
                 Some f \<Rightarrow> assigned (invoke Process_stream f s tr)
               | None \<Rightarrow>
                   assigned (invoke Buffer_stream_process (squash_buffer_stream_process buf) s tr)))
      else if current_operation = 1 then
        (if current_operation = operation then
           (case flush_stream funcs of
              Some f \<Rightarrow> assigned (invoke Flush_stream f s tr)
            | None \<Rightarrow> (Some SQUASH_OK, s, tr))
         else (res, s, tr))
      else if current_operation = 2 then
        (case (case finish_stream funcs of
                 Some f \<Rightarrow> invoke Finish_stream f s tr
               | None \<Rightarrow>
                   (case process_stream funcs of
                      None \<Rightarrow>
                        invoke Buffer_stream_finish (squash_buffer_stream_finish buf) s tr
                    | Some _ \<Rightarrow> (SQUASH_INVALID_OPERATION, s, tr))) of
           (r, s', tr') \<Rightarrow>
             (Some (if r = SQUASH_END_OF_STREAM then SQUASH_OK else r), s', tr'))
      else (res, s, tr))"

text \<open>
  Lines 447-452: the check of the single-byte buffer. \<open>saved_next_out\<close> is the local
  \<open>next_out\<close>, which holds the caller's output pointer when the buffer was substituted
  and \<open>NULL\<close> otherwise.
\<close>

definition check_output_sbb ::
  "pointer \<Rightarrow> SquashStatus option \<Rightarrow> 'p SquashStream \<Rightarrow> SquashStatus option" where
  "check_output_sbb saved_next_out res s =
     (if saved_next_out \<noteq> NULL then
        (if avail_out s = 0 then Some SQUASH_BUFFER_FULL else res)
      else res)"

text \<open>Lines 455-465: the state a level is left in when it returns \<open>SQUASH_PROCESSING\<close>.\<close>

definition in_progress :: "nat \<Rightarrow> 'p SquashStream \<Rightarrow> 'p SquashStream" where
  "in_progress current_operation s =
     (if current_operation = 0 then s\<lparr>state := SQUASH_STREAM_STATE_RUNNING\<rparr>
      else if current_operation = 1 then s\<lparr>state := SQUASH_STREAM_STATE_FLUSHING\<rparr>
      else if current_operation = 2 then s\<lparr>state := SQUASH_STREAM_STATE_FINISHING\<rparr>
      else s)"

text \<open>
  Lines 405-477, the loop \<open>while (current_operation <= operation)\<close>. Each \<open>break\<close> is a
  result; the fall-through of the last branch is the recursive call. The status is read
  at \<open>if (res == SQUASH_PROCESSING)\<close>, and once more by \<open>return res\<close> after the loop.
\<close>

function squash_stream_process_internal_loop ::
  "'p SquashCodecFuncs \<Rightarrow> 'p SquashBufferStreamFuncs \<Rightarrow> nat \<Rightarrow> pointer \<Rightarrow> nat
     \<Rightarrow> SquashStatus option \<Rightarrow> 'p SquashStream \<Rightarrow> trace \<Rightarrow> 'p outcome" where
  "squash_stream_process_internal_loop funcs buf operation saved_next_out
       current_operation res s tr =
     (if current_operation \<le> operation then
        (case squash_stream_process_internal_level funcs buf operation current_operation res s tr of
           (res1, s1, tr1) \<Rightarrow>
             (case check_output_sbb saved_next_out res1 s1 of
                None \<Rightarrow> Inl Unassigned_res
              | Some r \<Rightarrow>
                  if r = SQUASH_PROCESSING then Inr (r, in_progress current_operation s1, tr1)
                  else if r = SQUASH_END_OF_STREAM \<or> (current_operation = 2 \<and> r = SQUASH_OK)
                  then Inr (r, s1\<lparr>state := SQUASH_STREAM_STATE_FINISHED\<rparr>, tr1)
                  else if r = SQUASH_OK
                  then squash_stream_process_internal_loop funcs buf operation saved_next_out
                         (current_operation + 1) (Some r)
                         (s1\<lparr>state := SQUASH_STREAM_STATE_IDLE\<rparr>) tr1
                  else Inr (r, s1, tr1)))
      else (case res of None \<Rightarrow> Inl Unassigned_res | Some r \<Rightarrow> Inr (r, s, tr)))"
  by pat_completeness auto
termination
  by (relation "measure (\<lambda>(funcs, buf, operation, saved_next_out, current_operation, rest).
         Suc operation - current_operation)") auto

declare squash_stream_process_internal_loop.simps [simp del]

text \<open>Lines 350-364: the level a stream in a given state is at.\<close>

fun entry_operation :: "SquashStreamState \<Rightarrow> nat" where
  "entry_operation SQUASH_STREAM_STATE_IDLE = 0"
| "entry_operation SQUASH_STREAM_STATE_RUNNING = 0"
| "entry_operation SQUASH_STREAM_STATE_FLUSHING = 1"
| "entry_operation SQUASH_STREAM_STATE_FINISHING = 2"
| "entry_operation SQUASH_STREAM_STATE_FINISHED = 3"

text \<open>
  Lines 397-403: the substitution of the single-byte buffer. The result is the local
  \<open>next_out\<close> and the stream as the callbacks will see it.
\<close>

definition substitute_output_sbb :: "'p SquashStream \<Rightarrow> pointer \<times> 'p SquashStream" where
  "substitute_output_sbb s =
     (if avail_out s = 0 then (next_out s, s\<lparr>avail_out := 1, next_out := Output_sbb\<rparr>)
      else (NULL, s))"

text \<open>
  Lines 479-485: the restoration of the caller's output pointer, guarded by
  \<open>next_out != 0\<close>, and the update of the totals from the lengths saved at entry.
\<close>

definition restore_and_account ::
  "size_t \<Rightarrow> size_t \<Rightarrow> pointer \<Rightarrow> 'p SquashStream \<Rightarrow> 'p SquashStream" where
  "restore_and_account entry_avail_in entry_avail_out saved_next_out s =
     (let s1 = (if saved_next_out \<noteq> NULL then s\<lparr>avail_out := 0, next_out := saved_next_out\<rparr>
                else s);
          s2 = s1\<lparr>total_in := total_in s1 + (entry_avail_in - avail_in s1)\<rparr>
      in s2\<lparr>total_out := total_out s2 + (entry_avail_out - avail_out s2)\<rparr>)"

text \<open>\<open>squash_stream_process_internal\<close> (lines 307-488).\<close>

definition squash_stream_process_internal ::
  "'p SquashCodecFuncs \<Rightarrow> 'p SquashBufferStreamFuncs \<Rightarrow> 'p SquashStream \<Rightarrow> nat \<Rightarrow> 'p outcome" where
  "squash_stream_process_internal funcs buf s operation =
     (if operation = 1 \<and> flush_stream funcs = None then Inr (SQUASH_INVALID_OPERATION, s, [])
      else if (operation = 0 \<and> state_value (state s) > state_value SQUASH_STREAM_STATE_RUNNING)
            \<or> (operation = 1 \<and> state_value (state s) > state_value SQUASH_STREAM_STATE_FLUSHING)
            \<or> (operation = 2 \<and> state_value (state s) > state_value SQUASH_STREAM_STATE_FINISHING)
      then Inr (SQUASH_STATE, s, [])
      else if entry_operation (state s) > operation then Inr (SQUASH_STATE, s, [])
      else
        (case substitute_output_sbb s of
           (saved_next_out, s0) \<Rightarrow>
             (case squash_stream_process_internal_loop funcs buf operation saved_next_out
                     (entry_operation (state s)) None s0 [] of
                Inl e \<Rightarrow> Inl e
              | Inr (r, s1, tr) \<Rightarrow>
                  Inr (r, restore_and_account (avail_in s) (avail_out s) saved_next_out s1, tr))))"

text \<open>The three driver operations (lines 507-536).\<close>

definition squash_stream_process ::
  "'p SquashCodecFuncs \<Rightarrow> 'p SquashBufferStreamFuncs \<Rightarrow> 'p SquashStream \<Rightarrow> 'p outcome" where
  "squash_stream_process funcs buf s = squash_stream_process_internal funcs buf s 0"

definition squash_stream_flush ::
  "'p SquashCodecFuncs \<Rightarrow> 'p SquashBufferStreamFuncs \<Rightarrow> 'p SquashStream \<Rightarrow> 'p outcome" where
  "squash_stream_flush funcs buf s = squash_stream_process_internal funcs buf s 1"

definition squash_stream_finish ::
  "'p SquashCodecFuncs \<Rightarrow> 'p SquashBufferStreamFuncs \<Rightarrow> 'p SquashStream \<Rightarrow> 'p outcome" where
  "squash_stream_finish funcs buf s = squash_stream_process_internal funcs buf s 2"

section \<open>What a call did\<close>

text \<open>
  The single-byte buffer was written during a call: the caller's capacity was zero, so
  the buffer was substituted, and the loop leaves the stream without room
  (\<open>stream->avail_out == 0\<close>, which is how the source tells).
\<close>

definition output_sbb_written ::
  "'p SquashCodecFuncs \<Rightarrow> 'p SquashBufferStreamFuncs \<Rightarrow> 'p SquashStream \<Rightarrow> nat \<Rightarrow> bool" where
  "output_sbb_written funcs buf s operation =
     (avail_out s = 0 \<and>
      (case substitute_output_sbb s of
         (saved_next_out, s0) \<Rightarrow>
           (case squash_stream_process_internal_loop funcs buf operation saved_next_out
                   (entry_operation (state s)) None s0 [] of
              Inl e \<Rightarrow> False
            | Inr (r, s1, tr) \<Rightarrow> avail_out s1 = 0)))"


section \<open>What the engine expects of a callback\<close>

text \<open>
  The callbacks a call can reach: those of the function table and the two entry points
  of the buffering adapter.
\<close>

definition callbacks ::
  "'p SquashCodecFuncs \<Rightarrow> 'p SquashBufferStreamFuncs \<Rightarrow> 'p stream_fn set" where
  "callbacks funcs buf =
     set_option (process_stream funcs) \<union> set_option (flush_stream funcs)
       \<union> set_option (finish_stream funcs)
       \<union> {squash_buffer_stream_process buf, squash_buffer_stream_finish buf}"

text \<open>
  The totals belong to the engine (``managed internally by Squash and should not be
  modified by consumers or plugins''): a callback leaves them alone.
\<close>

definition keeps_totals :: "'p stream_fn \<Rightarrow> bool" where
  "keeps_totals f =
     (\<forall>s. total_in (snd (f s)) = total_in s \<and> total_out (snd (f s)) = total_out s)"

text \<open>
  A callback consumes input and fills output: it never hands back more remaining input
  or more remaining output room than it was given.
\<close>

definition only_consumes :: "'p stream_fn \<Rightarrow> bool" where
  "only_consumes f =
     (\<forall>s. avail_in (snd (f s)) \<le> avail_in s \<and> avail_out (snd (f s)) \<le> avail_out s)"


text \<open>
  The streams a caller can hand to the engine: one that \<open>squash_stream_init\<close> has
  initialised, with the cursors set by the caller between calls, after any number of
  calls of the three drivers that returned.
\<close>

inductive reachable ::
  "'p SquashCodecFuncs \<Rightarrow> 'p SquashBufferStreamFuncs \<Rightarrow> 'p SquashStream \<Rightarrow> bool"
  for funcs :: "'p SquashCodecFuncs" and buf :: "'p SquashBufferStreamFuncs" where
  created: "reachable funcs buf (squash_stream_init s stype opts)"
| supplied: "reachable funcs buf s \<Longrightarrow>
     reachable funcs buf (s\<lparr>next_in := p, avail_in := n, next_out := q, avail_out := m\<rparr>)"
| processed: "reachable funcs buf s \<Longrightarrow> squash_stream_process funcs buf s = Inr (r, s', tr) \<Longrightarrow>
     reachable funcs buf s'"
| flushed: "reachable funcs buf s \<Longrightarrow> squash_stream_flush funcs buf s = Inr (r, s', tr) \<Longrightarrow>
     reachable funcs buf s'"
| finished: "reachable funcs buf s \<Longrightarrow> squash_stream_finish funcs buf s = Inr (r, s', tr) \<Longrightarrow>
     reachable funcs buf s'"

section \<open>Example plugins and streams\<close>

text \<open>
  Concrete callbacks, function tables and streams, on which the theorems below are
  evaluated. The callbacks move the two length fields the way a plugin does when it
  consumes input or emits output.
\<close>

definition consume_all :: "unit stream_fn" where
  "consume_all s = (SQUASH_OK, s\<lparr>avail_in := 0\<rparr>)"

definition copy_byte :: "unit stream_fn" where
  "copy_byte s = (SQUASH_OK, s\<lparr>avail_in := avail_in s - 1, avail_out := avail_out s - 1\<rparr>)"

definition emit_byte_end_of_stream :: "unit stream_fn" where
  "emit_byte_end_of_stream s = (SQUASH_END_OF_STREAM, s\<lparr>avail_out := avail_out s - 1\<rparr>)"

definition end_of_stream :: "unit stream_fn" where
  "end_of_stream s = (SQUASH_END_OF_STREAM, s)"

definition adapter :: "unit SquashBufferStreamFuncs" where
  "adapter = \<lparr>squash_buffer_stream_process = consume_all,
              squash_buffer_stream_finish = consume_all\<rparr>"

definition process_only_codec :: "unit SquashCodecFuncs" where
  "process_only_codec =
     \<lparr>process_stream = Some consume_all, flush_stream = None, finish_stream = None\<rparr>"

definition copy_codec :: "unit SquashCodecFuncs" where
  "copy_codec = \<lparr>process_stream = Some copy_byte, flush_stream = None, finish_stream = None\<rparr>"


definition no_flush_codec :: "unit SquashCodecFuncs" where
  "no_flush_codec =
     \<lparr>process_stream = Some consume_all, flush_stream = None,
      finish_stream = Some end_of_stream\<rparr>"

definition full_codec :: "unit SquashCodecFuncs" where
  "full_codec =
     \<lparr>process_stream = Some consume_all, flush_stream = Some consume_all,
      finish_stream = Some end_of_stream\<rparr>"

definition footer_codec :: "unit SquashCodecFuncs" where
  "footer_codec =
     \<lparr>process_stream = Some consume_all, flush_stream = None,
      finish_stream = Some emit_byte_end_of_stream\<rparr>"

text \<open>The stream \<open>squash_stream_init\<close> produces, written out.\<close>

definition fresh_stream :: "unit SquashStream" where
  "fresh_stream =
     \<lparr>plugin_data = (), priv = NULL,
      next_in = NULL, avail_in = 0, total_in = 0,
      next_out = NULL, avail_out = 0, total_out = 0,
      options = None, stream_type = SQUASH_STREAM_COMPRESS,
      state = SQUASH_STREAM_STATE_IDLE,
      user_data = NULL, destroy_user_data = NULL\<rparr>"

text \<open>A stream with no input and room for 16 bytes of output at address 100.\<close>

definition drained_stream :: "unit SquashStream" where
  "drained_stream = fresh_stream\<lparr>next_out := Addr 100, avail_out := 16\<rparr>"

text \<open>
  A running stream, 10 bytes in and 5 bytes out so far, with 3 bytes of input left at
  address 200 and no output buffer: a null output pointer and a capacity of zero.
\<close>

definition running_stream_without_output :: "unit SquashStream" where
  "running_stream_without_output =
     fresh_stream\<lparr>next_in := Addr 200, avail_in := 3, total_in := 10, total_out := 5,
                   state := SQUASH_STREAM_STATE_RUNNING\<rparr>"

text \<open>
  A stream that is finishing, whose caller passes an output pointer (address 100) with
  a capacity of zero.
\<close>

definition finishing_stream_full_output :: "unit SquashStream" where
  "finishing_stream_full_output =
     fresh_stream\<lparr>next_out := Addr 100, avail_out := 0, total_in := 10, total_out := 5,
                   state := SQUASH_STREAM_STATE_FINISHING\<rparr>"


section \<open>Evaluation rules\<close>

lemmas engine_defs =
  squash_stream_process_internal_def substitute_output_sbb_def restore_and_account_def
  squash_stream_process_internal_level_def check_output_sbb_def in_progress_def
  invoke_def assigned_def

lemmas run_defs = engine_defs squash_stream_process_internal_loop.simps

lemma restore_and_account_fields:
  "state (restore_and_account a b p s) = state s"
  "avail_in (restore_and_account a b p s) = avail_in s"
  "total_in (restore_and_account a b p s) = total_in s + (a - avail_in s)"
  "avail_out (restore_and_account a b p s) = (if p \<noteq> NULL then 0 else avail_out s)"
  "next_out (restore_and_account a b p s) = (if p \<noteq> NULL then p else next_out s)"
  "total_out (restore_and_account a b p s)
     = total_out s + (b - (if p \<noteq> NULL then 0 else avail_out s))"
  by (simp_all add: restore_and_account_def Let_def)

lemma substitute_output_sbb_fields:
  "fst (substitute_output_sbb s) = (if avail_out s = 0 then next_out s else NULL)"
  "avail_in (snd (substitute_output_sbb s)) = avail_in s"
  "total_in (snd (substitute_output_sbb s)) = total_in s"
  "total_out (snd (substitute_output_sbb s)) = total_out s"
  "avail_out (snd (substitute_output_sbb s)) = (if avail_out s = 0 then 1 else avail_out s)"
  "state (snd (substitute_output_sbb s)) = state s"
  by (simp_all add: substitute_output_sbb_def)

lemma avail_out_in_progress [simp]: "avail_out (in_progress cur s) = avail_out s"
  by (simp add: in_progress_def)

section \<open>One level of the loop\<close>

lemma level_trace:
  assumes "squash_stream_process_internal_level funcs buf operation cur res s tr = (res1, s1, tr1)"
  shows "(tr1 = tr \<and> (cur = 2 \<longrightarrow> res1 = Some SQUASH_INVALID_OPERATION)) \<or>
         (\<exists>e x. tr1 = tr @ [(e, x)] \<and>
            ((cur = 0 \<and> (e = Process_stream \<or> e = Buffer_stream_process) \<and> res1 = Some x)
           \<or> (cur = 1 \<and> e = Flush_stream \<and> res1 = Some x)
           \<or> (cur = 2 \<and> (e = Finish_stream \<or> e = Buffer_stream_finish)
                \<and> res1 = Some (if x = SQUASH_END_OF_STREAM then SQUASH_OK else x))))"
  using assms
  by (auto simp: squash_stream_process_internal_level_def invoke_def assigned_def
        split: if_splits option.splits prod.splits)

lemma level_finish_entry:
  assumes lv: "squash_stream_process_internal_level funcs buf operation cur res s tr
                 = (res1, s1, tr1)"
    and e: "e = Finish_stream \<or> e = Buffer_stream_finish"
    and new: "(e, x) \<in> set tr1" "(e, x) \<notin> set tr"
  shows "cur = 2 \<and> res1 = Some (if x = SQUASH_END_OF_STREAM then SQUASH_OK else x)"
  using level_trace [OF lv] e new by auto

lemma level_other_entry:
  assumes lv: "squash_stream_process_internal_level funcs buf operation cur res s tr
                 = (res1, s1, tr1)"
    and e: "e = Finish_stream \<or> e = Buffer_stream_finish"
    and c2: "cur \<noteq> 2" and old: "(e, x) \<notin> set tr"
  shows "(e, x) \<notin> set tr1"
  using level_trace [OF lv] e c2 old by auto

lemma level_without_adapter_finish:
  assumes "squash_stream_process_internal_level funcs buf operation cur res s tr = (res1, s1, tr1)"
    and "process_stream funcs \<noteq> None"
    and "(Buffer_stream_finish, x) \<notin> set tr"
  shows "(Buffer_stream_finish, x) \<notin> set tr1"
  using assms
  by (auto simp: squash_stream_process_internal_level_def invoke_def assigned_def
        split: if_splits option.splits prod.splits)

lemma level_finish_unsupported:
  assumes "squash_stream_process_internal_level funcs buf operation 2 res s tr = (res1, s1, tr1)"
    and "process_stream funcs \<noteq> None" and "finish_stream funcs = None"
  shows "res1 = Some SQUASH_INVALID_OPERATION"
  using assms
  by (auto simp: squash_stream_process_internal_level_def)

lemma level_stream:
  assumes "squash_stream_process_internal_level funcs buf operation cur res s tr = (res1, s1, tr1)"
  shows "s1 = s \<or> (\<exists>f \<in> callbacks funcs buf. s1 = snd (f s))"
  using assms
  by (auto simp: squash_stream_process_internal_level_def invoke_def assigned_def callbacks_def
        split: if_splits option.splits prod.splits)

lemma check_output_sbb_cases:
  assumes "check_output_sbb saved res1 s1 = Some r"
  shows "res1 = Some r \<or> (saved \<noteq> NULL \<and> avail_out s1 = 0 \<and> r = SQUASH_BUFFER_FULL)"
  using assms by (auto simp: check_output_sbb_def split: if_splits)

section \<open>Unfolding and induction for the loop\<close>

text \<open>
  One iteration of the loop, by the way it ends: the three \<open>break\<close>s and the
  fall-through into the next level.
\<close>

lemma loop_unfold:
  assumes "cur \<le> operation"
    and "squash_stream_process_internal_level funcs buf operation cur res s tr = (res1, s1, tr1)"
    and "check_output_sbb saved res1 s1 = Some r1"
  shows "squash_stream_process_internal_loop funcs buf operation saved cur res s tr =
           (if r1 = SQUASH_PROCESSING then Inr (r1, in_progress cur s1, tr1)
            else if r1 = SQUASH_END_OF_STREAM \<or> (cur = 2 \<and> r1 = SQUASH_OK)
            then Inr (r1, s1\<lparr>state := SQUASH_STREAM_STATE_FINISHED\<rparr>, tr1)
            else if r1 = SQUASH_OK
            then squash_stream_process_internal_loop funcs buf operation saved (cur + 1) (Some r1)
                   (s1\<lparr>state := SQUASH_STREAM_STATE_IDLE\<rparr>) tr1
            else Inr (r1, s1, tr1))"
  using assms by (simp add: squash_stream_process_internal_loop.simps [of _ _ _ _ cur])

lemma loop_exit:
  assumes "\<not> cur \<le> operation"
  shows "squash_stream_process_internal_loop funcs buf operation saved cur res s tr =
           (case res of None \<Rightarrow> Inl Unassigned_res | Some r \<Rightarrow> Inr (r, s, tr))"
  using assms by (simp add: squash_stream_process_internal_loop.simps [of _ _ _ _ cur])

lemma loop_fault:
  assumes "cur \<le> operation"
    and "squash_stream_process_internal_level funcs buf operation cur res s tr = (res1, s1, tr1)"
    and "check_output_sbb saved res1 s1 = None"
  shows "squash_stream_process_internal_loop funcs buf operation saved cur res s tr
           = Inl Unassigned_res"
  using assms by (simp add: squash_stream_process_internal_loop.simps [of _ _ _ _ cur])

lemma loop_step:
  assumes run: "squash_stream_process_internal_loop funcs buf operation saved cur res s tr
                  = Inr (r, s', tr')"
    and le: "cur \<le> operation"
  obtains
    (processing) res1 s1 where
      "squash_stream_process_internal_level funcs buf operation cur res s tr = (res1, s1, tr')"
      "check_output_sbb saved res1 s1 = Some r"
      "r = SQUASH_PROCESSING" "s' = in_progress cur s1"
  | (finished) res1 s1 where
      "squash_stream_process_internal_level funcs buf operation cur res s tr = (res1, s1, tr')"
      "check_output_sbb saved res1 s1 = Some r"
      "r = SQUASH_END_OF_STREAM \<or> (cur = 2 \<and> r = SQUASH_OK)"
      "s' = s1\<lparr>state := SQUASH_STREAM_STATE_FINISHED\<rparr>"
  | (continue) res1 s1 tr1 where
      "squash_stream_process_internal_level funcs buf operation cur res s tr = (res1, s1, tr1)"
      "check_output_sbb saved res1 s1 = Some SQUASH_OK"
      "cur \<noteq> 2"
      "squash_stream_process_internal_loop funcs buf operation saved (cur + 1) (Some SQUASH_OK)
         (s1\<lparr>state := SQUASH_STREAM_STATE_IDLE\<rparr>) tr1 = Inr (r, s', tr')"
  | (failed) res1 s1 where
      "squash_stream_process_internal_level funcs buf operation cur res s tr = (res1, s1, tr')"
      "check_output_sbb saved res1 s1 = Some r"
      "r \<noteq> SQUASH_PROCESSING" "r \<noteq> SQUASH_END_OF_STREAM" "r \<noteq> SQUASH_OK"
      "s' = s1"
proof -
  obtain res1 s1 tr1 where
    lv: "squash_stream_process_internal_level funcs buf operation cur res s tr = (res1, s1, tr1)"
    by (metis prod_cases3)
  have "check_output_sbb saved res1 s1 \<noteq> None"
  proof
    assume "check_output_sbb saved res1 s1 = None"
    from loop_fault [OF le lv this] run show False by simp
  qed
  then obtain r1 where ck: "check_output_sbb saved res1 s1 = Some r1"
    by blast
  note eq = run [unfolded loop_unfold [OF le lv ck]]
  show thesis
  proof (cases "r1 = SQUASH_PROCESSING")
    case True
    with eq have "r = r1" "s' = in_progress cur s1" "tr' = tr1"
      by simp_all
    with lv ck True show thesis
      by (intro processing [of res1 s1]) simp_all
  next
    case np: False
    show thesis
    proof (cases "r1 = SQUASH_END_OF_STREAM \<or> (cur = 2 \<and> r1 = SQUASH_OK)")
      case True
      with eq np have "r = r1" "s' = s1\<lparr>state := SQUASH_STREAM_STATE_FINISHED\<rparr>" "tr' = tr1"
        by simp_all
      with lv ck True show thesis
        by (intro finished [of res1 s1]) simp_all
    next
      case nf: False
      show thesis
      proof (cases "r1 = SQUASH_OK")
        case True
        with nf have c2: "cur \<noteq> 2" by simp
        from eq np nf True have
          "squash_stream_process_internal_loop funcs buf operation saved (cur + 1) (Some SQUASH_OK)
             (s1\<lparr>state := SQUASH_STREAM_STATE_IDLE\<rparr>) tr1 = Inr (r, s', tr')"
          by simp
        with lv ck True c2 show thesis
          by (intro continue [of res1 s1 tr1]) simp_all
      next
        case False
        with eq np nf have "r = r1" "s' = s1" "tr' = tr1"
          by simp_all
        with lv ck np nf False show thesis
          by (intro failed [of res1 s1]) simp_all
      qed
    qed
  qed
qed

text \<open>
  Induction on the number of levels that are left, for a run of the loop that returns.
\<close>

lemma loop_induct [consumes 1, case_names exit step]:
  assumes run: "squash_stream_process_internal_loop funcs buf operation saved cur res s tr
                  = Inr (r, s', tr')"
    and exit: "\<And>cur res s tr. \<not> cur \<le> operation \<Longrightarrow> res = Some r \<Longrightarrow> s' = s \<Longrightarrow> tr' = tr
                 \<Longrightarrow> P cur res s tr"
    and step: "\<And>cur res s tr. cur \<le> operation \<Longrightarrow>
                 squash_stream_process_internal_loop funcs buf operation saved cur res s tr
                   = Inr (r, s', tr') \<Longrightarrow>
                 (\<And>res1 s1 tr1.
                    squash_stream_process_internal_level funcs buf operation cur res s tr
                      = (res1, s1, tr1) \<Longrightarrow>
                    check_output_sbb saved res1 s1 = Some SQUASH_OK \<Longrightarrow>
                    cur \<noteq> 2 \<Longrightarrow>
                    squash_stream_process_internal_loop funcs buf operation saved (cur + 1)
                      (Some SQUASH_OK) (s1\<lparr>state := SQUASH_STREAM_STATE_IDLE\<rparr>) tr1
                      = Inr (r, s', tr') \<Longrightarrow>
                    P (cur + 1) (Some SQUASH_OK) (s1\<lparr>state := SQUASH_STREAM_STATE_IDLE\<rparr>) tr1)
                 \<Longrightarrow> P cur res s tr"
  shows "P cur res s tr"
  using run
proof (induction "Suc operation - cur" arbitrary: cur res s tr)
  case 0
  then have gt: "\<not> cur \<le> operation"
    by simp
  from "0.prems" [unfolded loop_exit [OF gt]]
  have "res = Some r" "s' = s" "tr' = tr"
    by (simp_all split: option.splits)
  with gt show ?case
    by (intro exit)
next
  case (Suc n)
  then have le: "cur \<le> operation"
    by simp
  show ?case
  proof (rule step [OF le Suc.prems])
    fix res1 s1 tr1
    assume "squash_stream_process_internal_loop funcs buf operation saved (cur + 1)
              (Some SQUASH_OK) (s1\<lparr>state := SQUASH_STREAM_STATE_IDLE\<rparr>) tr1
              = Inr (r, s', tr')"
    moreover from Suc.hyps(2) have "n = Suc operation - (cur + 1)"
      by simp
    ultimately show "P (cur + 1) (Some SQUASH_OK) (s1\<lparr>state := SQUASH_STREAM_STATE_IDLE\<rparr>) tr1"
      by (rule Suc.hyps(1) [rotated])
  qed
qed

text \<open>The outcomes of a call: rejected by an entry check, or run through the loop.\<close>

lemma engine_cases:
  assumes "squash_stream_process_internal funcs buf s operation = Inr (r, s', tr)"
  obtains
    (rejected) "tr = []" "s' = s" "r = SQUASH_INVALID_OPERATION \<or> r = SQUASH_STATE"
  | (ran) s1 where
      "squash_stream_process_internal_loop funcs buf operation (fst (substitute_output_sbb s))
         (entry_operation (state s)) None (snd (substitute_output_sbb s)) [] = Inr (r, s1, tr)"
      "s' = restore_and_account (avail_in s) (avail_out s) (fst (substitute_output_sbb s)) s1"
      "entry_operation (state s) \<le> operation"
proof -
  let ?inv = "operation = 1 \<and> flush_stream funcs = None"
  let ?passed =
    "(operation = 0 \<and> state_value (state s) > state_value SQUASH_STREAM_STATE_RUNNING)
     \<or> (operation = 1 \<and> state_value (state s) > state_value SQUASH_STREAM_STATE_FLUSHING)
     \<or> (operation = 2 \<and> state_value (state s) > state_value SQUASH_STREAM_STATE_FINISHING)"
  let ?late = "entry_operation (state s) > operation"
  note def = squash_stream_process_internal_def [of funcs buf s operation]
  show thesis
  proof (cases ?inv)
    case True
    from assms have "(Inr (SQUASH_INVALID_OPERATION, s, []) :: 'a outcome) = Inr (r, s', tr)"
      unfolding def if_P [OF True] .
    then have "tr = []" "s' = s" "r = SQUASH_INVALID_OPERATION \<or> r = SQUASH_STATE"
      by simp_all
    then show thesis by (rule rejected)
  next
    case a: False
    show thesis
    proof (cases ?passed)
      case True
      from assms have "(Inr (SQUASH_STATE, s, []) :: 'a outcome) = Inr (r, s', tr)"
        unfolding def if_not_P [OF a] if_P [OF True] .
      then have "tr = []" "s' = s" "r = SQUASH_INVALID_OPERATION \<or> r = SQUASH_STATE"
        by simp_all
      then show thesis by (rule rejected)
    next
      case b: False
      show thesis
      proof (cases ?late)
        case True
        from assms have "(Inr (SQUASH_STATE, s, []) :: 'a outcome) = Inr (r, s', tr)"
          unfolding def if_not_P [OF a] if_not_P [OF b] if_P [OF True] .
        then have "tr = []" "s' = s" "r = SQUASH_INVALID_OPERATION \<or> r = SQUASH_STATE"
          by simp_all
        then show thesis by (rule rejected)
      next
        case c: False
        obtain saved s0 where sub: "substitute_output_sbb s = (saved, s0)"
          by (cases "substitute_output_sbb s")
        from assms have
          "(case squash_stream_process_internal_loop funcs buf operation saved
                   (entry_operation (state s)) None s0 [] of
              Inl e \<Rightarrow> Inl e
            | Inr (r, s1, tr) \<Rightarrow>
                Inr (r, restore_and_account (avail_in s) (avail_out s) saved s1, tr))
           = Inr (r, s', tr)"
          unfolding def if_not_P [OF a] if_not_P [OF b] if_not_P [OF c] sub
          by simp
        then obtain s1 where
          "squash_stream_process_internal_loop funcs buf operation saved
             (entry_operation (state s)) None s0 [] = Inr (r, s1, tr)"
          "s' = restore_and_account (avail_in s) (avail_out s) saved s1"
          by (auto split: sum.splits)
        with sub c show thesis
          by (intro ran [of s1]) simp_all
      qed
    qed
  qed
qed

section \<open>Entry checks\<close>

text \<open>
  C7. On a codec whose function table has no flush entry point, a flush call returns
  \<open>SQUASH_INVALID_OPERATION\<close> whatever the state of the stream; the stream comes back
  as it was (state, cursors and totals) and no entry point was invoked.
\<close>

theorem flush_without_flush_stream:
  assumes "flush_stream funcs = None"
  shows "squash_stream_flush funcs buf s = Inr (SQUASH_INVALID_OPERATION, s, [])"
  using assms by (simp add: squash_stream_flush_def squash_stream_process_internal_def)

theorem flush_without_flush_stream_witness:
  "flush_stream process_only_codec = None
   \<and> squash_stream_flush process_only_codec adapter running_stream_without_output
       = Inr (SQUASH_INVALID_OPERATION, running_stream_without_output, [])"
proof -
  have h: "flush_stream process_only_codec = None"
    by (simp add: process_only_codec_def)
  from flush_without_flush_stream [OF h] h show ?thesis
    by simp
qed

text \<open>
  C6, as the claim states it, fails: a flush call on a finished stream whose codec has
  no flush entry point returns \<open>SQUASH_INVALID_OPERATION\<close>, not \<open>SQUASH_STATE\<close>, because
  the check of the flush entry point comes before the check of the state.
\<close>

theorem finished_flush_not_state_error:
  "squash_stream_flush process_only_codec adapter
       (drained_stream\<lparr>state := SQUASH_STREAM_STATE_FINISHED\<rparr>)
     = Inr (SQUASH_INVALID_OPERATION,
            drained_stream\<lparr>state := SQUASH_STREAM_STATE_FINISHED\<rparr>, [])"
  by (simp add: squash_stream_flush_def squash_stream_process_internal_def
        process_only_codec_def)

text \<open>
  C6, amended. On a stream whose state is Finished, every process call, every finish
  call, and every flush call on a codec that has a flush entry point returns
  \<open>SQUASH_STATE\<close>; a flush call on a codec without one returns
  \<open>SQUASH_INVALID_OPERATION\<close>. In each case the stream comes back unchanged (state and
  totals included) and no entry point was invoked.
\<close>

theorem finished_stream_rejects:
  assumes "state s = SQUASH_STREAM_STATE_FINISHED"
  shows "squash_stream_process funcs buf s = Inr (SQUASH_STATE, s, [])
       \<and> squash_stream_finish funcs buf s = Inr (SQUASH_STATE, s, [])
       \<and> squash_stream_flush funcs buf s =
           Inr (if flush_stream funcs = None then SQUASH_INVALID_OPERATION else SQUASH_STATE,
                s, [])"
  using assms
  by (simp add: squash_stream_process_def squash_stream_finish_def squash_stream_flush_def
        squash_stream_process_internal_def)

theorem finished_stream_rejects_witness:
  "state (drained_stream\<lparr>state := SQUASH_STREAM_STATE_FINISHED\<rparr>) = SQUASH_STREAM_STATE_FINISHED
   \<and> squash_stream_process full_codec adapter
         (drained_stream\<lparr>state := SQUASH_STREAM_STATE_FINISHED\<rparr>)
       = Inr (SQUASH_STATE, drained_stream\<lparr>state := SQUASH_STREAM_STATE_FINISHED\<rparr>, [])
   \<and> squash_stream_finish full_codec adapter
         (drained_stream\<lparr>state := SQUASH_STREAM_STATE_FINISHED\<rparr>)
       = Inr (SQUASH_STATE, drained_stream\<lparr>state := SQUASH_STREAM_STATE_FINISHED\<rparr>, [])
   \<and> squash_stream_flush full_codec adapter
         (drained_stream\<lparr>state := SQUASH_STREAM_STATE_FINISHED\<rparr>)
       = Inr (SQUASH_STATE, drained_stream\<lparr>state := SQUASH_STREAM_STATE_FINISHED\<rparr>, [])"
proof -
  have h: "state (drained_stream\<lparr>state := SQUASH_STREAM_STATE_FINISHED\<rparr>)
             = SQUASH_STREAM_STATE_FINISHED"
    by simp
  have f: "flush_stream full_codec \<noteq> None"
    by (simp add: full_codec_def)
  from finished_stream_rejects [OF h, of full_codec adapter] h f show ?thesis
    by simp
qed

section \<open>Construction from option arrays\<close>

text \<open>
  C10. \<open>squash_stream_newa\<close> returns \<open>NULL\<close> for every codec name, stream type and pair of
  key and value arrays: it never constructs a stream.
\<close>

theorem squash_stream_newa_returns_null:
  "squash_stream_newa codec stype keys vals = None"
  by (simp add: squash_stream_newa_def)

section \<open>The unassigned status\<close>

text \<open>
  A run of the loop reads \<open>res\<close> unassigned only if it starts at the flush level of a
  request that is not a flush request.
\<close>

lemma loop_assigned:
  assumes "res \<noteq> None \<or> cur = 0 \<or> cur = 2 \<or> (cur = 1 \<and> operation = 1)"
    and "res = None \<longrightarrow> cur \<le> operation"
  shows "squash_stream_process_internal_loop funcs buf operation saved cur res s tr
           \<noteq> Inl Unassigned_res"
  using assms
proof (induction funcs buf operation saved cur res s tr
        rule: squash_stream_process_internal_loop.induct)
  case (1 funcs buf operation saved cur res s tr)
  show ?case
  proof (cases "cur \<le> operation")
    case False
    with "1.prems" show ?thesis
      by (auto simp: loop_exit)
  next
    case True
    obtain res1 s1 tr1 where
      lv: "squash_stream_process_internal_level funcs buf operation cur res s tr = (res1, s1, tr1)"
      by (metis prod_cases3)
    with "1.prems" have "res1 \<noteq> None"
      by (auto simp: squash_stream_process_internal_level_def invoke_def assigned_def
            split: if_splits option.splits prod.splits)
    then have "check_output_sbb saved res1 s1 \<noteq> None"
      by (simp add: check_output_sbb_def)
    then obtain r1 where ck: "check_output_sbb saved res1 s1 = Some r1"
      by blast
    from "1.IH" [of res1 "(s1, tr1)" s1 tr1 r1] True lv ck
    show ?thesis
      by (auto simp: loop_unfold [OF True lv ck])
  qed
qed

lemma engine_assigned:
  assumes "operation \<le> 2" and "operation = 2 \<longrightarrow> state s \<noteq> SQUASH_STREAM_STATE_FLUSHING"
  shows "squash_stream_process_internal funcs buf s operation \<noteq> Inl Unassigned_res"
proof -
  let ?cur = "entry_operation (state s)"
  have "squash_stream_process_internal_loop funcs buf operation saved ?cur None s0 []
          \<noteq> Inl Unassigned_res" if "?cur \<le> operation" for saved s0
  proof (rule loop_assigned)
    from assms that show "None \<noteq> None \<or> ?cur = 0 \<or> ?cur = 2 \<or> (?cur = 1 \<and> operation = 1)"
      by (cases "state s") auto
    from that show "None = None \<longrightarrow> ?cur \<le> operation"
      by simp
  qed
  then show ?thesis
    by (auto simp: squash_stream_process_internal_def split: prod.splits sum.splits)
qed

lemma drivers_assigned:
  shows "squash_stream_process funcs buf s \<noteq> Inl Unassigned_res"
    and "squash_stream_flush funcs buf s \<noteq> Inl Unassigned_res"
    and "state s \<noteq> SQUASH_STREAM_STATE_FLUSHING
           \<Longrightarrow> squash_stream_finish funcs buf s \<noteq> Inl Unassigned_res"
  by (simp_all add: squash_stream_process_def squash_stream_flush_def squash_stream_finish_def
        engine_assigned)

text \<open>
  C9. The claim expects every status the loop interprets to have been assigned during
  the call. A finish call on a stream in the Flushing state enters the loop at the
  flush level with \<open>current_operation \<noteq> operation\<close>; no branch assigns \<open>res\<close>, the check
  of the single-byte buffer does not either (no callback ran, so \<open>avail_out\<close> is not 0),
  and \<open>if (res == SQUASH_PROCESSING)\<close> reads it unassigned. This holds for every codec,
  every adapter and every stream; by the lemmas above it is the only call of the three
  drivers that does so.
\<close>

theorem finish_while_flushing_reads_unassigned_res:
  "squash_stream_finish funcs buf (s\<lparr>state := SQUASH_STREAM_STATE_FLUSHING\<rparr>)
     = Inl Unassigned_res"
  by (simp add: squash_stream_finish_def run_defs)


lemma finish_idle_stream_reaches_finish_stream:
  assumes "state s = SQUASH_STREAM_STATE_IDLE" and "avail_in s = 0"
    and "finish_stream funcs = Some f"
  shows "\<exists>r s' x. squash_stream_finish funcs buf s = Inr (r, s', [(Finish_stream, x)])"
  using assms
  by (auto simp: squash_stream_finish_def run_defs split: if_splits prod.splits)













section \<open>The finish level\<close>

text \<open>
  Once a finish entry point (the codec's or the adapter's) has returned \<open>SQUASH_OK\<close> or
  \<open>SQUASH_END_OF_STREAM\<close>, the loop ends with \<open>SQUASH_OK\<close> and a finished stream, unless
  the check of the single-byte buffer turns the status into \<open>SQUASH_BUFFER_FULL\<close>, which it
  does only when the buffer was substituted and has no room left.
\<close>

lemma loop_finish_result:
  assumes "squash_stream_process_internal_loop funcs buf operation saved cur res s tr
             = Inr (r, s', tr')"
    and "(e, x) \<notin> set tr"
    and mem: "(e, x) \<in> set tr'"
    and e: "e = Finish_stream \<or> e = Buffer_stream_finish"
    and x: "x = SQUASH_OK \<or> x = SQUASH_END_OF_STREAM"
  shows "(r = SQUASH_OK \<and> state s' = SQUASH_STREAM_STATE_FINISHED
            \<and> (saved = NULL \<or> avail_out s' \<noteq> 0))
       \<or> (saved \<noteq> NULL \<and> r = SQUASH_BUFFER_FULL \<and> avail_out s' = 0)"
  using assms(1,2)
proof (induction cur res s tr rule: loop_induct)
  case (exit cur res s tr)
  with mem show ?case by simp
next
  case (step cur res s tr)
  from step.hyps(2,1) show ?case
  proof (cases rule: loop_step)
    case (continue res1 s1 tr1)
    from level_other_entry [OF continue(1) e continue(3) step.prems]
    show ?thesis by (rule step.IH [OF continue])
  next
    case (processing res1 s1)
    from level_finish_entry [OF processing(1) e mem step.prems] x
    have "res1 = Some SQUASH_OK" by auto
    with check_output_sbb_cases [OF processing(2)] processing(3) show ?thesis
      by auto
  next
    case (finished res1 s1)
    from level_finish_entry [OF finished(1) e mem step.prems] x
    have r1: "res1 = Some SQUASH_OK" by auto
    with check_output_sbb_cases [OF finished(2)] finished(3) have ok: "r = SQUASH_OK"
      by auto
    from finished(2) r1 ok have "saved = NULL \<or> avail_out s1 \<noteq> 0"
      by (auto simp: check_output_sbb_def split: if_splits)
    with ok finished(4) show ?thesis
      by simp
  next
    case (failed res1 s1)
    from level_finish_entry [OF failed(1) e mem step.prems] x
    have "res1 = Some SQUASH_OK" by auto
    with check_output_sbb_cases [OF failed(2)] failed(3-6) show ?thesis
      by auto
  qed
qed

text \<open>
  The same for a finish call: whether it ends with \<open>SQUASH_BUFFER_FULL\<close> or with
  \<open>SQUASH_OK\<close> and a finished stream is decided by the single-byte buffer alone.
\<close>

lemma finish_level_result:
  assumes run: "squash_stream_finish funcs buf s = Inr (r, s', tr)"
    and mem: "(e, x) \<in> set tr"
    and e: "e = Finish_stream \<or> e = Buffer_stream_finish"
    and x: "x = SQUASH_OK \<or> x = SQUASH_END_OF_STREAM"
  shows "if next_out s \<noteq> NULL \<and> output_sbb_written funcs buf s 2
         then r = SQUASH_BUFFER_FULL
         else r = SQUASH_OK \<and> state s' = SQUASH_STREAM_STATE_FINISHED"
proof -
  from run have "squash_stream_process_internal funcs buf s 2 = Inr (r, s', tr)"
    by (simp add: squash_stream_finish_def)
  then show ?thesis
  proof (cases rule: engine_cases)
    case rejected
    with mem show ?thesis by simp
  next
    case (ran s1)
    have sub: "substitute_output_sbb s
                 = (fst (substitute_output_sbb s), snd (substitute_output_sbb s))"
      by simp
    have w: "output_sbb_written funcs buf s 2 \<longleftrightarrow> avail_out s = 0 \<and> avail_out s1 = 0"
      unfolding output_sbb_written_def by (subst sub) (simp add: ran(1) del: prod.collapse)
    from loop_finish_result [OF ran(1) _ mem e x]
    have "(r = SQUASH_OK \<and> state s1 = SQUASH_STREAM_STATE_FINISHED
            \<and> (fst (substitute_output_sbb s) = NULL \<or> avail_out s1 \<noteq> 0))
       \<or> (fst (substitute_output_sbb s) \<noteq> NULL \<and> r = SQUASH_BUFFER_FULL \<and> avail_out s1 = 0)"
      by simp
    with w ran(2) show ?thesis
      by (auto simp: restore_and_account_fields substitute_output_sbb_fields split: if_splits)
  qed
qed

text \<open>
  C8, as the claim states it, fails: the finish entry point returns
  \<open>SQUASH_END_OF_STREAM\<close> after writing a byte, the caller had passed an output pointer
  with a capacity of zero, and the call returns \<open>SQUASH_BUFFER_FULL\<close> with the stream
  still in the Finishing state.
\<close>

theorem finish_end_of_stream_buffer_full:
  "squash_stream_finish footer_codec adapter finishing_stream_full_output
     = Inr (SQUASH_BUFFER_FULL, finishing_stream_full_output,
            [(Finish_stream, SQUASH_END_OF_STREAM)])"
  by (simp add: squash_stream_finish_def run_defs adapter_def consume_all_def footer_codec_def
        emit_byte_end_of_stream_def finishing_stream_full_output_def fresh_stream_def)

text \<open>
  C8, amended. In every finish call in which the codec's finish entry point is invoked
  and returns \<open>SQUASH_END_OF_STREAM\<close>, the call returns \<open>SQUASH_OK\<close> and the state of the
  stream is Finished, unless the caller passed a non-null output pointer with a capacity
  of zero and the single-byte buffer was written during the call: then, and only then,
  the call returns \<open>SQUASH_BUFFER_FULL\<close>.
\<close>

theorem finish_end_of_stream_normalised:
  assumes run: "squash_stream_finish funcs buf s = Inr (r, s', tr)"
    and mem: "(Finish_stream, SQUASH_END_OF_STREAM) \<in> set tr"
  shows "if next_out s \<noteq> NULL \<and> output_sbb_written funcs buf s 2
         then r = SQUASH_BUFFER_FULL
         else r = SQUASH_OK \<and> state s' = SQUASH_STREAM_STATE_FINISHED"
  using finish_level_result [OF run mem] by simp

theorem finish_end_of_stream_normalised_witness:
  "squash_stream_finish no_flush_codec adapter finishing_stream_full_output
     = Inr (SQUASH_OK, finishing_stream_full_output\<lparr>state := SQUASH_STREAM_STATE_FINISHED\<rparr>,
            [(Finish_stream, SQUASH_END_OF_STREAM)])
   \<and> (Finish_stream, SQUASH_END_OF_STREAM) \<in> set [(Finish_stream, SQUASH_END_OF_STREAM)]
   \<and> avail_out finishing_stream_full_output = 0
   \<and> next_out finishing_stream_full_output = Addr 100
   \<and> \<not> output_sbb_written no_flush_codec adapter finishing_stream_full_output 2
   \<and> state (finishing_stream_full_output\<lparr>state := SQUASH_STREAM_STATE_FINISHED\<rparr>)
       = SQUASH_STREAM_STATE_FINISHED
   \<and> squash_stream_finish footer_codec adapter finishing_stream_full_output
     = Inr (SQUASH_BUFFER_FULL, finishing_stream_full_output,
            [(Finish_stream, SQUASH_END_OF_STREAM)])
   \<and> output_sbb_written footer_codec adapter finishing_stream_full_output 2"
proof -
  have run: "squash_stream_finish no_flush_codec adapter finishing_stream_full_output
     = Inr (SQUASH_OK, finishing_stream_full_output\<lparr>state := SQUASH_STREAM_STATE_FINISHED\<rparr>,
            [(Finish_stream, SQUASH_END_OF_STREAM)])"
    by (simp add: squash_stream_finish_def run_defs adapter_def consume_all_def
          no_flush_codec_def end_of_stream_def finishing_stream_full_output_def fresh_stream_def)
  have run2: "squash_stream_finish footer_codec adapter finishing_stream_full_output
     = Inr (SQUASH_BUFFER_FULL, finishing_stream_full_output,
            [(Finish_stream, SQUASH_END_OF_STREAM)])"
    by (simp add: squash_stream_finish_def run_defs adapter_def consume_all_def
          footer_codec_def emit_byte_end_of_stream_def finishing_stream_full_output_def
          fresh_stream_def)
  have mem: "(Finish_stream, SQUASH_END_OF_STREAM) \<in> set [(Finish_stream, SQUASH_END_OF_STREAM)]"
    by simp
  have cur: "avail_out finishing_stream_full_output = 0"
    "next_out finishing_stream_full_output = Addr 100"
    by (simp_all add: finishing_stream_full_output_def fresh_stream_def)
  have nw: "\<not> output_sbb_written no_flush_codec adapter finishing_stream_full_output 2"
    by (simp add: output_sbb_written_def run_defs adapter_def consume_all_def
          no_flush_codec_def end_of_stream_def finishing_stream_full_output_def fresh_stream_def)
  have w: "output_sbb_written footer_codec adapter finishing_stream_full_output 2"
    by (simp add: output_sbb_written_def run_defs adapter_def consume_all_def footer_codec_def
          emit_byte_end_of_stream_def finishing_stream_full_output_def fresh_stream_def)
  from finish_end_of_stream_normalised [OF run mem] finish_end_of_stream_normalised [OF run2 mem]
    run run2 mem cur nw w
  show ?thesis
    by simp
qed

text \<open>
  A codec with a process entry point and no finish entry point: the finish level
  answers \<open>SQUASH_INVALID_OPERATION\<close>, so a finish call never returns \<open>SQUASH_OK\<close> and
  never invokes the adapter's finish entry point.
\<close>

lemma loop_finish_unsupported:
  assumes run: "squash_stream_process_internal_loop funcs buf 2 saved cur res s tr
                  = Inr (r, s', tr')"
    and fin: "finish_stream funcs = None" and pro: "process_stream funcs \<noteq> None"
    and "cur \<le> 2" and "(Buffer_stream_finish, x) \<notin> set tr"
  shows "r \<noteq> SQUASH_OK \<and> (Buffer_stream_finish, x) \<notin> set tr'"
  using run assms(4,5)
proof (induction cur res s tr rule: loop_induct)
  case (exit cur res s tr)
  then show ?case by simp
next
  case (step cur res s tr)
  from step.hyps(2,1) show ?case
  proof (cases rule: loop_step)
    case (continue res1 s1 tr1)
    from continue(3) step.prems(1) have "cur + 1 \<le> 2"
      by simp
    from step.IH [OF continue this
        level_without_adapter_finish [OF continue(1) pro step.prems(2)]]
    show ?thesis .
  next
    case (processing res1 s1)
    with level_without_adapter_finish [OF processing(1) pro step.prems(2)]
    show ?thesis by simp
  next
    case (finished res1 s1)
    have "r \<noteq> SQUASH_OK"
    proof
      assume ok: "r = SQUASH_OK"
      with finished(3) have c2: "cur = 2" by simp
      from level_finish_unsupported [OF finished(1) [unfolded c2] pro fin]
        check_output_sbb_cases [OF finished(2)] ok
      show False by auto
    qed
    with level_without_adapter_finish [OF finished(1) pro step.prems(2)]
    show ?thesis by simp
  next
    case (failed res1 s1)
    with level_without_adapter_finish [OF failed(1) pro step.prems(2)]
    show ?thesis by simp
  qed
qed

lemma finish_unsupported:
  assumes "finish_stream funcs = None" and "process_stream funcs \<noteq> None"
    and run: "squash_stream_finish funcs buf s = Inr (r, s', tr)"
  shows "r \<noteq> SQUASH_OK \<and> (Buffer_stream_finish, x) \<notin> set tr"
proof -
  from run have "squash_stream_process_internal funcs buf s 2 = Inr (r, s', tr)"
    by (simp add: squash_stream_finish_def)
  then show ?thesis
  proof (cases rule: engine_cases)
    case rejected
    then show ?thesis by auto
  next
    case (ran s1)
    from loop_finish_unsupported [OF ran(1) assms(1,2) ran(3)] show ?thesis
      by simp
  qed
qed




section \<open>Byte totals and the output cursor\<close>

text \<open>
  What relates the stream a run of the loop starts with to the one it ends with: any
  relation that the callbacks and the assignments to \<open>state\<close> respect.
\<close>

lemma loop_stream_rel:
  assumes run: "squash_stream_process_internal_loop funcs buf operation saved cur res s tr
             = Inr (r, s', tr')"
    and cb: "\<And>f a. f \<in> callbacks funcs buf \<Longrightarrow> R a (snd (f a))"
    and st: "\<And>a v. R a (a\<lparr>state := v\<rparr>)"
    and rf: "\<And>a. R a a"
    and tr: "\<And>a b c. R a b \<Longrightarrow> R b c \<Longrightarrow> R a c"
  shows "R s s'"
  using run
proof (induction cur res s tr rule: loop_induct)
  case (exit cur res s tr)
  with rf show ?case by simp
next
  case (step cur res s tr0)
  have lvR: "R s s1"
    if "squash_stream_process_internal_level funcs buf operation cur res s tr0 = (res1, s1, tr1)"
    for res1 s1 tr1
    using level_stream [OF that] cb rf by auto
  from step.hyps(2,1) show ?case
  proof (cases rule: loop_step)
    case (continue res1 s1 tr1)
    from tr [OF lvR [OF continue(1)] tr [OF st step.IH [OF continue]]]
    show ?thesis .
  next
    case (processing res1 s1)
    from rf st have "R s1 (in_progress cur s1)"
      by (simp add: in_progress_def)
    from tr [OF lvR [OF processing(1)] this] processing(4) show ?thesis
      by simp
  next
    case (finished res1 s1)
    from tr [OF lvR [OF finished(1)] st] finished(4) show ?thesis
      by simp
  next
    case (failed res1 s1)
    from lvR [OF failed(1)] failed(6) show ?thesis
      by simp
  qed
qed

lemma loop_totals:
  assumes run: "squash_stream_process_internal_loop funcs buf operation saved cur res s tr
             = Inr (r, s', tr')"
    and cb: "\<forall>f \<in> callbacks funcs buf. keeps_totals f"
  shows "total_in s' = total_in s \<and> total_out s' = total_out s"
  by (rule loop_stream_rel [OF run, where R = "\<lambda>a b. total_in b = total_in a \<and> total_out b = total_out a"])
     (use cb in \<open>simp_all add: keeps_totals_def\<close>)

lemma loop_avail:
  assumes run: "squash_stream_process_internal_loop funcs buf operation saved cur res s tr
             = Inr (r, s', tr')"
    and cb: "\<forall>f \<in> callbacks funcs buf. only_consumes f"
  shows "avail_in s' \<le> avail_in s \<and> avail_out s' \<le> avail_out s"
  by (rule loop_stream_rel [OF run, where R = "\<lambda>a b. avail_in b \<le> avail_in a \<and> avail_out b \<le> avail_out a"])
     (use cb in \<open>auto simp add: only_consumes_def intro: order_trans\<close>)

text \<open>
  With callbacks that leave the totals alone, every call that returns has added to each
  total the difference of the two lengths, in \<open>size_t\<close> arithmetic.
\<close>

lemma totals_accounting:
  assumes cb: "\<forall>f \<in> callbacks funcs buf. keeps_totals f"
    and run: "squash_stream_process_internal funcs buf s operation = Inr (r, s', tr)"
  shows "total_in s' = total_in s + (avail_in s - avail_in s')
       \<and> total_out s' = total_out s + (avail_out s - avail_out s')"
  using run
proof (cases rule: engine_cases)
  case rejected
  then show ?thesis by simp
next
  case (ran s1)
  from loop_totals [OF ran(1) cb] ran(2) show ?thesis
    by (simp add: restore_and_account_fields substitute_output_sbb_fields)
qed

lemma unat_total_update:
  fixes t a b :: size_t
  assumes "b \<le> a" and "unat t + unat a < 2 ^ 64"
  shows "unat (t + (a - b)) = unat t + (unat a - unat b)"
proof -
  from assms(1) have d: "unat (a - b) = unat a - unat b"
    by (rule unat_sub)
  with assms(2) have "unat t + unat (a - b) < 2 ^ LENGTH(64)"
    by simp
  then have "unat (t + (a - b)) = unat t + unat (a - b)"
    by (simp only: unat_add_lem)
  with d show ?thesis by simp
qed

text \<open>
  With callbacks that also only consume, and totals that do not overflow, the totals
  never decrease, provided the call is not made with a null output pointer and a
  capacity of zero.
\<close>

lemma totals_monotone:
  assumes kt: "\<forall>f \<in> callbacks funcs buf. keeps_totals f"
    and oc: "\<forall>f \<in> callbacks funcs buf. only_consumes f"
    and out: "avail_out s \<noteq> 0 \<or> next_out s \<noteq> NULL"
    and fit: "unat (total_in s) + unat (avail_in s) < 2 ^ 64"
             "unat (total_out s) + unat (avail_out s) < 2 ^ 64"
    and run: "squash_stream_process_internal funcs buf s operation = Inr (r, s', tr)"
  shows "avail_in s' \<le> avail_in s \<and> avail_out s' \<le> avail_out s
       \<and> unat (total_in s') = unat (total_in s) + (unat (avail_in s) - unat (avail_in s'))
       \<and> unat (total_out s') = unat (total_out s) + (unat (avail_out s) - unat (avail_out s'))"
proof -
  have le: "avail_in s' \<le> avail_in s \<and> avail_out s' \<le> avail_out s"
    using run
  proof (cases rule: engine_cases)
    case rejected
    then show ?thesis by simp
  next
    case (ran s1)
    from loop_avail [OF ran(1) oc] ran(2) out show ?thesis
      by (auto simp: restore_and_account_fields substitute_output_sbb_fields split: if_splits)
  qed
  from totals_accounting [OF kt run]
  have "total_in s' = total_in s + (avail_in s - avail_in s')"
    and "total_out s' = total_out s + (avail_out s - avail_out s')"
    by simp_all
  with le unat_total_update [of "avail_in s'" "avail_in s" "total_in s"]
    unat_total_update [of "avail_out s'" "avail_out s" "total_out s"] fit
  show ?thesis by simp
qed

text \<open>
  A caller that passes a non-null output pointer with a capacity of zero gets both
  back; and a run of the loop that ends with the single-byte buffer written returns
  \<open>SQUASH_BUFFER_FULL\<close>.
\<close>

lemma output_cursor_restored:
  assumes "avail_out s = 0" and "next_out s \<noteq> NULL"
    and run: "squash_stream_process_internal funcs buf s operation = Inr (r, s', tr)"
  shows "next_out s' = next_out s \<and> avail_out s' = 0"
  using run
proof (cases rule: engine_cases)
  case rejected
  with assms(1) show ?thesis by simp
next
  case (ran s1)
  with assms(1,2) show ?thesis
    by (simp add: restore_and_account_fields substitute_output_sbb_fields)
qed

lemma loop_output_sbb_written:
  assumes run: "squash_stream_process_internal_loop funcs buf operation saved cur res s tr
                  = Inr (r, s', tr')"
    and sv: "saved \<noteq> NULL" and full: "avail_out s' = 0"
    and "cur \<le> operation \<or> avail_out s \<noteq> 0"
  shows "r = SQUASH_BUFFER_FULL"
  using run assms(4)
proof (induction cur res s tr rule: loop_induct)
  case (exit cur res s tr)
  with full show ?case by simp
next
  case (step cur res s tr)
  from step.hyps(2,1) show ?case
  proof (cases rule: loop_step)
    case (continue res1 s1 tr1)
    from continue(2) sv have "avail_out s1 \<noteq> 0"
      by (auto simp: check_output_sbb_def split: if_splits)
    then have "cur + 1 \<le> operation \<or> avail_out (s1\<lparr>state := SQUASH_STREAM_STATE_IDLE\<rparr>) \<noteq> 0"
      by simp
    from step.IH [OF continue this] show ?thesis .
  next
    case (processing res1 s1)
    with full sv show ?thesis
      by (simp add: check_output_sbb_def)
  next
    case (finished res1 s1)
    with full sv show ?thesis
      by (simp add: check_output_sbb_def)
  next
    case (failed res1 s1)
    with full sv show ?thesis
      by (simp add: check_output_sbb_def)
  qed
qed

section \<open>The null output pointer\<close>

text \<open>
  C5. The claim expects a process call on a freshly initialised stream to return
  \<open>SQUASH_OK\<close> without invoking the codec and with both totals still 0. The code
  returns \<open>SQUASH_OK\<close> and invokes nothing, and \<open>total_in\<close> stays 0; but the single-byte
  buffer was substituted for the null output pointer and is not taken back, so the
  stream comes back with \<open>next_out = &output_sbb\<close>, \<open>avail_out = 1\<close> and
  \<open>total_out = 0 + (0 - 1)\<close>, that is \<open>2 ^ 64 - 1\<close>.
\<close>

theorem process_fresh_stream:
  "squash_stream_process funcs buf (squash_stream_init s stype opts)
     = Inr (SQUASH_OK,
            (squash_stream_init s stype opts)
              \<lparr>next_out := Output_sbb, avail_out := 1, total_out := 18446744073709551615\<rparr>,
            [])"
  by (simp add: squash_stream_process_def squash_stream_init_def run_defs)

text \<open>
  C1. The claim expects the totals never to decrease. A running stream with 3 bytes of
  input, a null output pointer and a capacity of zero, on a codec whose process entry
  point consumes the input and writes nothing: the call returns \<open>SQUASH_OK\<close>,
  \<open>total_in\<close> goes from 10 to 13, and \<open>total_out\<close> goes from 5 to 4, because
  \<open>avail_out\<close> comes back as 1.
\<close>

theorem process_without_output_lowers_total_out:
  "total_out running_stream_without_output = 5
   \<and> squash_stream_process process_only_codec adapter running_stream_without_output
     = Inr (SQUASH_OK,
            running_stream_without_output
              \<lparr>avail_in := 0, total_in := 13, next_out := Output_sbb, avail_out := 1,
               total_out := 4, state := SQUASH_STREAM_STATE_IDLE\<rparr>,
            [(Process_stream, SQUASH_OK)])"
  by (simp add: squash_stream_process_def run_defs adapter_def consume_all_def
        process_only_codec_def running_stream_without_output_def fresh_stream_def)

text \<open>
  C2. The claim expects \<open>SQUASH_BUFFER_FULL\<close> when the codec writes into the single-byte
  buffer, and the caller's output pointer and capacity back in every case. The same
  stream on a codec whose process entry point copies one byte: the byte goes into the
  single-byte buffer, the call returns \<open>SQUASH_OK\<close>, and the stream comes back with
  \<open>next_out = &output_sbb\<close> instead of the caller's null pointer.
\<close>

theorem process_null_output_keeps_output_sbb:
  "next_out running_stream_without_output = NULL
   \<and> avail_out running_stream_without_output = 0
   \<and> squash_stream_process copy_codec adapter running_stream_without_output
     = Inr (SQUASH_OK,
            running_stream_without_output
              \<lparr>avail_in := 2, total_in := 11, next_out := Output_sbb, avail_out := 0,
               state := SQUASH_STREAM_STATE_IDLE\<rparr>,
            [(Process_stream, SQUASH_OK)])"
  by (simp add: squash_stream_process_def run_defs adapter_def consume_all_def copy_codec_def
        copy_byte_def running_stream_without_output_def fresh_stream_def)

end
